theory Spec2Isabelle
  imports Main "HOL-Library.Sublist"
begin

section \<open>The expense list component: data model\<close>

text \<open>
  The development embeds \<^verbatim>\<open>ExpenseListComponent\<close> of
  \<^verbatim>\<open>src/app/expense/expense-list/expense-list.component.ts\<close>.
  Field names follow the source; a name that clashes with a HOL constant or with a field
  of another record carries a suffix.
\<close>

text \<open>
  Modelled from the spec: the interface \<^verbatim>\<open>Expense\<close> of
  \<^verbatim>\<open>shared/domain\<close> is not part of the sources. The spec lists an identifier, a
  name, a monetary amount, a calendar date, an optional category reference and a creation
  timestamp. The component reads \<^verbatim>\<open>id\<close>, \<^verbatim>\<open>name\<close> and
  \<^verbatim>\<open>date\<close> only.
\<close>

record Expense =
  id_e :: string
  name :: string
  amount :: int
  date :: string
  categoryId :: "string option"
  createdAt :: string

text \<open>\<^verbatim>\<open>interface ExpenseGroup { date: string; expenses: Expense[] }\<close>\<close>

record ExpenseGroup =
  date_g :: string
  expenses :: "Expense list"

text \<open>
  Modelled from the spec: \<^verbatim>\<open>ExpenseCriteria\<close> of \<^verbatim>\<open>shared/domain\<close> is
  not part of the sources. Its fields are the ones the component assigns: \<^verbatim>\<open>page\<close>,
  \<^verbatim>\<open>size\<close>, \<^verbatim>\<open>sort\<close>, and the optional \<^verbatim>\<open>name\<close>,
  \<^verbatim>\<open>categoryIds\<close> and \<^verbatim>\<open>yearMonth\<close>. An absent (deleted, undefined
  or null) optional field is \<open>None\<close>.
\<close>

record ExpenseCriteria =
  page :: nat
  size_c :: nat
  sort_c :: string
  name_c :: "string option"
  categoryIds :: "string list option"
  yearMonth :: "string option"

text \<open>
  Modelled from the spec: the page type returned by the ExpenseSource,
  \<^verbatim>\<open>{ content: sequence of Expense, last: boolean }\<close>.
\<close>

record ExpensePage =
  content :: "Expense list"
  last_p :: bool

text \<open>
  The categories of \<^verbatim>\<open>loadCategories\<close>: only the page shape matters to the
  component, a category is kept as its name.
\<close>

type_synonym Category = string

record CategoryPage =
  content_cat :: "Category list"
  last_cat :: bool

text \<open>The value of \<^verbatim>\<open>searchForm\<close>: the controls \<^verbatim>\<open>name\<close>,
  \<^verbatim>\<open>categoryIds\<close> and \<^verbatim>\<open>sort\<close>; an empty control holds null.\<close>

record FormValue =
  name_v :: "string option"
  categoryIds_v :: "string list option"
  sort_v :: string

text \<open>The error an observable fails with is opaque to the component.\<close>

datatype error = Error string

text \<open>
  The completion callbacks \<^verbatim>\<open>next\<close> that the component passes around: the default
  \<^verbatim>\<open>() => {}\<close>, the closure of \<^verbatim>\<open>reloadExpenses\<close> (which completes the
  refresher when an event was given) and the closure of \<^verbatim>\<open>loadNextExpensePage\<close>.
\<close>

datatype callback = NoCallback | RefresherComplete bool | InfiniteScrollComplete

text \<open>An exception of the runtime: reading a property of \<^verbatim>\<open>undefined\<close>.\<close>

datatype js_error = TypeError

text \<open>
  The component. \<^verbatim>\<open>date\<close> is a first-of-month \<^verbatim>\<open>Date\<close>, kept as a count of
  months (so that \<^verbatim>\<open>addMonths\<close> of date-fns is addition). The last three fields are
  the traces of the effects on collaborators: the calls of
  \<^verbatim>\<open>ToastService.displayErrorToast\<close>, the invocations of completion callbacks, and
  the exceptions a subscriber handler threw (RxJS reports them and goes on).
\<close>

record ExpenseListComponent =
  date_m :: int
  expenseGroups :: "ExpenseGroup list option"
  lastPageReached :: bool
  loading :: bool
  searchCriteria :: ExpenseCriteria
  categories :: "Category list"
  toasts :: "(string \<times> error) list"
  fired :: "callback list"
  unhandled :: "js_error list"

definition initialSort :: string where
  "initialSort = ''date,desc''"

definition initial :: "int \<Rightarrow> ExpenseListComponent" where
  "initial today =
     \<lparr>date_m = today, expenseGroups = None, lastPageReached = False, loading = False,
      searchCriteria = \<lparr>page = 0, size_c = 25, sort_c = initialSort, name_c = None,
                        categoryIds = None, yearMonth = None\<rparr>,
      categories = [], toasts = [], fired = [], unhandled = []\<rparr>"

section \<open>Sorting by name\<close>

text \<open>
  \<^verbatim>\<open>Array.prototype.sort\<close> with a comparison function is a stable sort. The
  comparison function \<^verbatim>\<open>String.prototype.localeCompare\<close> belongs to the runtime and
  is a parameter of the model: negative, zero or positive.
\<close>

type_synonym comparator = "string \<Rightarrow> string \<Rightarrow> int"

fun insert_by :: "('a \<Rightarrow> 'a \<Rightarrow> int) \<Rightarrow> 'a \<Rightarrow> 'a list \<Rightarrow> 'a list" where
  "insert_by cmp x [] = [x]"
| "insert_by cmp x (y # ys) =
     (if cmp x y \<le> 0 then x # y # ys else y # insert_by cmp x ys)"

definition array_sort :: "('a \<Rightarrow> 'a \<Rightarrow> int) \<Rightarrow> 'a list \<Rightarrow> 'a list" where
  "array_sort cmp xs = foldr (insert_by cmp) xs []"

text \<open>\<^verbatim>\<open>expenses.sort((a, b) => a.name.localeCompare(b.name))\<close>\<close>

definition sortExpenses :: "comparator \<Rightarrow> Expense list \<Rightarrow> Expense list" where
  "sortExpenses localeCompare es =
     array_sort (\<lambda>a b. localeCompare (name a) (name b)) es"

text \<open>
  The comparison functions for which the language fixes the result of a sort: the sign
  is antisymmetric and the induced order is transitive.
\<close>

definition consistent :: "comparator \<Rightarrow> bool" where
  "consistent cmp \<longleftrightarrow>
     (\<forall>a b. (cmp a b < 0) = (0 < cmp b a)) \<and>
     (\<forall>a b c. cmp a b \<le> 0 \<and> cmp b c \<le> 0 \<longrightarrow> cmp a c \<le> 0)"

definition name_sorted :: "comparator \<Rightarrow> Expense list \<Rightarrow> bool" where
  "name_sorted cmp es = sorted_wrt (\<lambda>a b. cmp (name a) (name b) \<le> 0) es"

section \<open>Grouping a page\<close>

text \<open>
  \<^verbatim>\<open>groupBy\<close> of RxJS keeps one buffer per key, in the order the keys first occur;
  with \<^verbatim>\<open>mergeMap((group) => group.pipe(toArray()))\<close> each buffer is emitted as an
  array when the source completes, in that order.
\<close>

fun group_add :: "('k \<times> 'a list) list \<Rightarrow> 'k \<Rightarrow> 'a \<Rightarrow> ('k \<times> 'a list) list" where
  "group_add [] k x = [(k, [x])]"
| "group_add ((k', xs) # gs) k x =
     (if k' = k then (k', xs @ [x]) # gs else (k', xs) # group_add gs k x)"

definition groupBy :: "('a \<Rightarrow> 'k) \<Rightarrow> 'a list \<Rightarrow> ('k \<times> 'a list) list" where
  "groupBy keySelector xs = foldl (\<lambda>gs x. group_add gs (keySelector x) x) [] xs"

text \<open>\<^verbatim>\<open>(expense) => (groupByDate ? expense.date : expense.id)\<close>\<close>

definition keySelector :: "bool \<Rightarrow> Expense \<Rightarrow> string" where
  "keySelector groupByDate expense = (if groupByDate then date expense else id_e expense)"

definition partitions :: "bool \<Rightarrow> Expense list \<Rightarrow> Expense list list" where
  "partitions groupByDate es = map snd (groupBy (keySelector groupByDate) es)"

section \<open>Loading expenses\<close>

text \<open>
  The handler \<^verbatim>\<open>next: (expenses: Expense[]) => ...\<close> of the subscription, on the
  groups \<^verbatim>\<open>this.expenseGroups!\<close>. \<^verbatim>\<open>expenses[0].date\<close> throws on an empty
  array. The group that \<^verbatim>\<open>find\<close> returns is the first one with the date, and it is
  updated in place.
\<close>

fun merge_first :: "comparator \<Rightarrow> ExpenseGroup \<Rightarrow> ExpenseGroup list \<Rightarrow> ExpenseGroup list" where
  "merge_first cmp g [] = []"
| "merge_first cmp g (other # rest) =
     (if date_g other = date_g g
      then other\<lparr>expenses := sortExpenses cmp (expenses other @ expenses g)\<rparr> # rest
      else other # merge_first cmp g rest)"

definition subscribe_next ::
  "comparator \<Rightarrow> bool \<Rightarrow> ExpenseGroup list \<Rightarrow> Expense list \<Rightarrow> js_error + ExpenseGroup list" where
  "subscribe_next cmp groupByDate groups es =
     (case es of
        [] \<Rightarrow> Inl TypeError
      | first # _ \<Rightarrow>
          (let expenseGroup = \<lparr>date_g = date first, expenses = sortExpenses cmp es\<rparr>;
               expenseGroupWithSameDate = find (\<lambda>other. date_g other = date_g expenseGroup) groups
           in if expenseGroupWithSameDate = None \<or> \<not> groupByDate
              then Inr (groups @ [expenseGroup])
              else Inr (merge_first cmp expenseGroup groups)))"

text \<open>One emitted array reaches the handler; an exception it throws is reported and the
  subscription goes on with the state as it is. On \<^verbatim>\<open>this.expenseGroups\<close> being
  null the handler throws as well.\<close>

definition deliver :: "comparator \<Rightarrow> bool \<Rightarrow> ExpenseListComponent \<Rightarrow> Expense list \<Rightarrow> ExpenseListComponent" where
  "deliver cmp groupByDate s es =
     (case expenseGroups s of
        None \<Rightarrow> s\<lparr>unhandled := unhandled s @ [TypeError]\<rparr>
      | Some groups \<Rightarrow>
          (case subscribe_next cmp groupByDate groups es of
             Inl e \<Rightarrow> s\<lparr>unhandled := unhandled s @ [e]\<rparr>
           | Inr groups' \<Rightarrow> s\<lparr>expenseGroups := Some groups'\<rparr>))"

text \<open>The groups after the handler has seen one array, and the groups a component shows.\<close>

definition absorb :: "comparator \<Rightarrow> bool \<Rightarrow> ExpenseGroup list \<Rightarrow> Expense list \<Rightarrow> ExpenseGroup list" where
  "absorb cmp groupByDate groups es =
     (case subscribe_next cmp groupByDate groups es of Inl e \<Rightarrow> groups | Inr groups' \<Rightarrow> groups')"

definition groups_of :: "ExpenseListComponent \<Rightarrow> ExpenseGroup list" where
  "groups_of s = (case expenseGroups s of None \<Rightarrow> [] | Some groups \<Rightarrow> groups)"

text \<open>What a call of \<^verbatim>\<open>loadExpenses\<close> leaves in flight: the criteria handed to
  \<^verbatim>\<open>getExpenses\<close> and the two values its closures captured.\<close>

record Pending =
  request :: ExpenseCriteria
  groupByDate :: bool
  next_cb :: callback

text \<open>Modelled from the spec: \<^verbatim>\<open>formatPeriod\<close> of \<^verbatim>\<open>shared/period\<close> is not
  part of the sources; it is a parameter, from the month to the period filter.\<close>

type_synonym formatter = "int \<Rightarrow> string"

text \<open>The cleaning of the criteria in the first lines of \<^verbatim>\<open>loadExpenses\<close>.\<close>

definition clean_categoryIds :: "ExpenseCriteria \<Rightarrow> ExpenseCriteria" where
  "clean_categoryIds c =
     (case categoryIds c of
        Some (i # is) \<Rightarrow> c
      | _ \<Rightarrow> c\<lparr>categoryIds := None\<rparr>)"

definition clean_name :: "ExpenseCriteria \<Rightarrow> ExpenseCriteria" where
  "clean_name c =
     (case name_c c of
        Some (ch # chs) \<Rightarrow> c
      | _ \<Rightarrow> c\<lparr>name_c := None\<rparr>)"

text \<open>The synchronous part of \<^verbatim>\<open>loadExpenses\<close>, up to the subscription.\<close>

definition loadExpenses_request ::
  "formatter \<Rightarrow> callback \<Rightarrow> ExpenseListComponent \<Rightarrow> ExpenseListComponent \<times> Pending" where
  "loadExpenses_request formatPeriod next s =
     (let c = clean_name (clean_categoryIds
                ((searchCriteria s)\<lparr>yearMonth := Some (formatPeriod (date_m s))\<rparr>));
          s' = s\<lparr>searchCriteria := c, loading := True\<rparr>
      in (s', \<lparr>request = c, groupByDate = prefix ''date'' (sort_c c), next_cb = next\<rparr>))"

text \<open>
  The arrival of the response. A page runs the projection of the outer
  \<^verbatim>\<open>mergeMap\<close>, then the handler on each emitted array, then the
  \<^verbatim>\<open>finalize\<close> callback. A failure skips the projection: the error handler of the
  subscription runs, then the \<^verbatim>\<open>finalize\<close> callback.
\<close>

definition loadExpenses_response ::
  "comparator \<Rightarrow> Pending \<Rightarrow> error + ExpensePage \<Rightarrow> ExpenseListComponent \<Rightarrow> ExpenseListComponent" where
  "loadExpenses_response cmp p r s =
     (case r of
        Inl err \<Rightarrow>
          (s\<lparr>toasts := toasts s @ [(''Could not load expenses'', err)]\<rparr>)\<lparr>loading := False\<rparr>
      | Inr expensePage \<Rightarrow>
          (let s1 = s\<lparr>lastPageReached := last_p expensePage\<rparr>;
               s2 = s1\<lparr>fired := fired s1 @ [next_cb p]\<rparr>;
               s3 = (if page (searchCriteria s2) = 0 \<or> expenseGroups s2 = None
                     then s2\<lparr>expenseGroups := Some []\<rparr> else s2);
               s4 = foldl (deliver cmp (groupByDate p)) s3
                      (partitions (groupByDate p) (content expensePage))
           in s4\<lparr>loading := False\<rparr>))"

text \<open>\<^verbatim>\<open>loadExpenses\<close> with its response, no other call in between.\<close>

definition loadExpenses ::
  "formatter \<Rightarrow> comparator \<Rightarrow> callback \<Rightarrow> error + ExpensePage \<Rightarrow> ExpenseListComponent \<Rightarrow> ExpenseListComponent" where
  "loadExpenses formatPeriod cmp next r s =
     (let (s', p) = loadExpenses_request formatPeriod next s
      in loadExpenses_response cmp p r s')"

section \<open>Loading categories\<close>

definition loadCategories_request :: "callback \<Rightarrow> ExpenseListComponent \<Rightarrow> ExpenseListComponent \<times> callback" where
  "loadCategories_request next s =
     (s\<lparr>searchCriteria := clean_name (searchCriteria s), loading := True\<rparr>, next)"

text \<open>Here the \<^verbatim>\<open>finalize\<close> callback clears the flag and calls \<^verbatim>\<open>next\<close>,
  after a page and after a failure alike.\<close>

definition loadCategories_response ::
  "callback \<Rightarrow> error + CategoryPage \<Rightarrow> ExpenseListComponent \<Rightarrow> ExpenseListComponent" where
  "loadCategories_response next r s =
     (let s1 = (case r of
                  Inl err \<Rightarrow> s\<lparr>toasts := toasts s @ [(''Could not load categories'', err)]\<rparr>
                | Inr cats \<Rightarrow>
                    s\<lparr>categories :=
                        (if page (searchCriteria s) = 0 then [] else categories s) @ content_cat cats,
                      lastPageReached := last_cat cats\<rparr>);
          s2 = s1\<lparr>loading := False\<rparr>
      in s2\<lparr>fired := fired s2 @ [next]\<rparr>)"

definition loadCategories ::
  "callback \<Rightarrow> error + CategoryPage \<Rightarrow> ExpenseListComponent \<Rightarrow> ExpenseListComponent" where
  "loadCategories next r s =
     (let (s', cb) = loadCategories_request next s in loadCategories_response cb r s')"

section \<open>The operations of the component\<close>

text \<open>\<^verbatim>\<open>reloadExpenses($event?)\<close>, up to the subscription.\<close>

definition reloadExpenses_request ::
  "formatter \<Rightarrow> bool \<Rightarrow> ExpenseListComponent \<Rightarrow> ExpenseListComponent \<times> Pending" where
  "reloadExpenses_request formatPeriod hasEvent s =
     loadExpenses_request formatPeriod (RefresherComplete hasEvent)
       (s\<lparr>searchCriteria := (searchCriteria s)\<lparr>page := 0\<rparr>\<rparr>)"

text \<open>\<^verbatim>\<open>loadNextExpensePage($event)\<close>, up to the subscription.\<close>

definition loadNextExpensePage_request ::
  "formatter \<Rightarrow> ExpenseListComponent \<Rightarrow> ExpenseListComponent \<times> Pending" where
  "loadNextExpensePage_request formatPeriod s =
     loadExpenses_request formatPeriod InfiniteScrollComplete
       (s\<lparr>searchCriteria := (searchCriteria s)\<lparr>page := page (searchCriteria s) + 1\<rparr>\<rparr>)"

text \<open>\<^verbatim>\<open>addMonths(number)\<close>: the groups are set to null to show the skeleton.\<close>

definition addMonths_request ::
  "formatter \<Rightarrow> int \<Rightarrow> ExpenseListComponent \<Rightarrow> ExpenseListComponent \<times> Pending" where
  "addMonths_request formatPeriod number s =
     reloadExpenses_request formatPeriod False
       (s\<lparr>date_m := date_m s + number, expenseGroups := None\<rparr>)"

text \<open>The subscriber of \<^verbatim>\<open>searchForm.valueChanges\<close>:
  \<^verbatim>\<open>{ ...this.searchCriteria, ...value, page: 0 }\<close>, then \<^verbatim>\<open>loadExpenses()\<close>.\<close>

definition valueChanges_request ::
  "formatter \<Rightarrow> FormValue \<Rightarrow> ExpenseListComponent \<Rightarrow> ExpenseListComponent \<times> Pending" where
  "valueChanges_request formatPeriod v s =
     loadExpenses_request formatPeriod NoCallback
       (s\<lparr>searchCriteria := (searchCriteria s)\<lparr>name_c := name_v v, categoryIds := categoryIds_v v,
                                                sort_c := sort_v v, page := 0\<rparr>\<rparr>)"

text \<open>The user's actions that load expenses. \<open>LoadExpenses\<close> is the call
  \<^verbatim>\<open>loadExpenses()\<close> with the default callback, as \<^verbatim>\<open>ionViewDidEnter\<close>
  makes it (before it loads the categories, which touches no group) and as a modal
  dismissed with the role \<^verbatim>\<open>refresh\<close> makes it.\<close>

datatype action =
    LoadExpenses
  | ValueChanges FormValue
  | AddMonths int
  | ReloadExpenses bool
  | LoadNextExpensePage

fun issue :: "formatter \<Rightarrow> action \<Rightarrow> ExpenseListComponent \<Rightarrow> ExpenseListComponent \<times> Pending" where
  "issue fmt LoadExpenses s = loadExpenses_request fmt NoCallback s"
| "issue fmt (ValueChanges v) s = valueChanges_request fmt v s"
| "issue fmt (AddMonths n) s = addMonths_request fmt n s"
| "issue fmt (ReloadExpenses ev) s = reloadExpenses_request fmt ev s"
| "issue fmt LoadNextExpensePage s = loadNextExpensePage_request fmt s"

text \<open>An action and the response to its request; the caller serialises the loads.\<close>

definition perform ::
  "formatter \<Rightarrow> comparator \<Rightarrow> ExpenseListComponent \<Rightarrow> action \<times> (error + ExpensePage) \<Rightarrow> ExpenseListComponent" where
  "perform fmt cmp s ar =
     (let (s', p) = issue fmt (fst ar) s in loadExpenses_response cmp p (snd ar) s')"

definition run ::
  "formatter \<Rightarrow> comparator \<Rightarrow> ExpenseListComponent \<Rightarrow> (action \<times> (error + ExpensePage)) list \<Rightarrow> ExpenseListComponent" where
  "run fmt cmp s ars = foldl (perform fmt cmp) s ars"

section \<open>Notions used in the statements\<close>

text \<open>The groups a response to a request starts from: none on page 0, all otherwise.\<close>

definition kept :: "ExpenseListComponent \<Rightarrow> ExpenseGroup list" where
  "kept s = (if page (searchCriteria s) = 0 then [] else groups_of s)"

text \<open>The filter values and the sort specification of some criteria, without the page.\<close>

definition filters :: "ExpenseCriteria \<Rightarrow> string option \<times> string list option \<times> string option \<times> string" where
  "filters c = (name_c c, categoryIds c, yearMonth c, sort_c c)"

text \<open>The criteria are as a call of \<^verbatim>\<open>loadExpenses\<close> leaves them: the period is
  the one of the month shown, and no empty filter is kept.\<close>

definition settled :: "formatter \<Rightarrow> ExpenseListComponent \<Rightarrow> bool" where
  "settled fmt s \<longleftrightarrow>
     yearMonth (searchCriteria s) = Some (fmt (date_m s)) \<and>
     name_c (searchCriteria s) \<noteq> Some [] \<and> categoryIds (searchCriteria s) \<noteq> Some []"

text \<open>An action that keeps the sort date-based.\<close>

fun date_based :: "action \<Rightarrow> bool" where
  "date_based (ValueChanges v) = prefix ''date'' (sort_v v)"
| "date_based a = True"

section \<open>Sample data\<close>

text \<open>A comparison function to evaluate with: by character code, as
  \<^verbatim>\<open>localeCompare\<close> orders plain capitalised ASCII words.\<close>

fun codeCompare :: comparator where
  "codeCompare [] [] = 0"
| "codeCompare [] (y # ys) = - 1"
| "codeCompare (x # xs) [] = 1"
| "codeCompare (x # xs) (y # ys) =
     (if (of_char x :: nat) < of_char y then - 1
      else if (of_char y :: nat) < of_char x then 1
      else codeCompare xs ys)"

definition period :: formatter where
  "period m = ''2024-01''"

definition mkExpense :: "string \<Rightarrow> string \<Rightarrow> string \<Rightarrow> Expense" where
  "mkExpense i n d = \<lparr>id_e = i, name = n, amount = 1, date = d, categoryId = None, createdAt = d\<rparr>"

text \<open>The records of the scenarios A and B of the specification.\<close>

definition bread :: Expense where
  "bread = mkExpense ''1'' ''Bread'' ''2024-01-05''"

definition milk :: Expense where
  "milk = mkExpense ''2'' ''Milk'' ''2024-01-05''"

definition eggs :: Expense where
  "eggs = mkExpense ''3'' ''Eggs'' ''2024-01-05''"

definition samplePage :: ExpensePage where
  "samplePage = \<lparr>content = [milk, bread], last_p = True\<rparr>"

definition nextPage :: ExpensePage where
  "nextPage = \<lparr>content = [eggs], last_p = True\<rparr>"

definition scenarioB :: "(action \<times> (error + ExpensePage)) list" where
  "scenarioB = [(LoadExpenses, Inr samplePage), (LoadNextExpensePage, Inr nextPage)]"

text \<open>The component after scenario B, a component sorted by name, one on its second page
  that shows bread and milk, and a new value of the search form.\<close>

definition scrolled :: ExpenseListComponent where
  "scrolled = run period codeCompare (initial 0) scenarioB"

definition byName :: ExpenseListComponent where
  "byName = (initial 0)\<lparr>searchCriteria := (searchCriteria (initial 0))\<lparr>sort_c := ''name,asc''\<rparr>\<rparr>"


definition newFilter :: FormValue where
  "newFilter = \<lparr>name_v = Some ''Milk'', categoryIds_v = None, sort_v = ''name,asc''\<rparr>"

text \<open>Two values of the search form that change the sort only; a switch to the sort by
  name that loads scenario A, followed by a switch back to the sort by date whose fetch
  fails; the component after it; and a page that is not the last one.\<close>

definition sortByName :: FormValue where
  "sortByName = \<lparr>name_v = None, categoryIds_v = None, sort_v = ''name,asc''\<rparr>"

definition sortByDate :: FormValue where
  "sortByDate = \<lparr>name_v = None, categoryIds_v = None, sort_v = ''date,desc''\<rparr>"

definition failedSwitch :: "(action \<times> (error + ExpensePage)) list" where
  "failedSwitch = [(ValueChanges sortByName, Inr samplePage),
                   (ValueChanges sortByDate, Inl (Error ''offline''))]"

definition duplicated :: ExpenseListComponent where
  "duplicated = run period codeCompare (initial 0) failedSwitch"

definition morePage :: ExpensePage where
  "morePage = \<lparr>content = [eggs], last_p = False\<rparr>"

section \<open>Facts about the sort\<close>

lemma set_insert_by: "set (insert_by cmp x xs) = insert x (set xs)"
  by (induction xs) auto

lemma sorted_insert_by:
  assumes tot: "\<And>a b. cmp a b \<le> 0 \<or> cmp b a \<le> 0"
      and tr: "\<And>a b c. cmp a b \<le> 0 \<Longrightarrow> cmp b c \<le> 0 \<Longrightarrow> cmp a c \<le> 0"
  shows "sorted_wrt (\<lambda>a b. cmp a b \<le> 0) xs \<Longrightarrow> sorted_wrt (\<lambda>a b. cmp a b \<le> 0) (insert_by cmp x xs)"
proof (induction xs)
  case Nil
  then show ?case by simp
next
  case (Cons y ys)
  show ?case
  proof (cases "cmp x y \<le> 0")
    case True
    with Cons.prems tr show ?thesis by auto
  next
    case False
    with tot have "cmp y x \<le> 0" by blast
    with False Cons show ?thesis by (auto simp: set_insert_by)
  qed
qed

lemma sorted_array_sort:
  assumes tot: "\<And>a b. cmp a b \<le> 0 \<or> cmp b a \<le> 0"
      and tr: "\<And>a b c. cmp a b \<le> 0 \<Longrightarrow> cmp b c \<le> 0 \<Longrightarrow> cmp a c \<le> 0"
  shows "sorted_wrt (\<lambda>a b. cmp a b \<le> 0) (array_sort cmp xs)"
  unfolding array_sort_def
  by (induction xs) (simp_all add: sorted_insert_by [OF tot tr])

lemma consistent_total: "consistent cmp \<Longrightarrow> cmp a b \<le> 0 \<or> cmp b a \<le> 0"
  unfolding consistent_def by (metis not_le order_less_imp_le)

lemma consistent_trans: "consistent cmp \<Longrightarrow> cmp a b \<le> 0 \<Longrightarrow> cmp b c \<le> 0 \<Longrightarrow> cmp a c \<le> 0"
  unfolding consistent_def by blast

lemma name_sorted_sortExpenses:
  assumes "consistent cmp"
  shows "name_sorted cmp (sortExpenses cmp es)"
  unfolding name_sorted_def sortExpenses_def
  by (rule sorted_array_sort)
     (use assms consistent_total consistent_trans in blast)+

lemma sortExpenses_single: "sortExpenses cmp [e] = [e]"
  by (simp add: sortExpenses_def array_sort_def)

lemma set_sortExpenses: "set (sortExpenses cmp es) = set es"
  unfolding sortExpenses_def array_sort_def
  by (induction es) (simp_all add: set_insert_by)

section \<open>Facts about the grouping\<close>

lemma groupBy_snoc: "groupBy key (xs @ [x]) = group_add (groupBy key xs) (key x) x"
  by (simp add: groupBy_def)

lemma keys_group_add:
  "map fst (group_add gs k x) = (if k \<in> set (map fst gs) then map fst gs else map fst gs @ [k])"
  by (induction gs k x rule: group_add.induct) auto

lemma mem_group_add:
  "distinct (map fst gs) \<Longrightarrow> (k', p') \<in> set (group_add gs k x) \<Longrightarrow>
     (k' = k \<and> ((p' = [x] \<and> k \<notin> fst ` set gs) \<or> (\<exists>p. (k, p) \<in> set gs \<and> p' = p @ [x])))
     \<or> (k' \<noteq> k \<and> (k', p') \<in> set gs)"
  by (induction gs k x rule: group_add.induct) (force split: if_splits)+

lemma group_add_fresh: "k \<notin> fst ` set gs \<Longrightarrow> group_add gs k x = gs @ [(k, [x])]"
  by (induction gs k x rule: group_add.induct) auto

lemma fst_set_group_add: "fst ` set (group_add gs k x) = insert k (fst ` set gs)"
  by (induction gs k x rule: group_add.induct) auto

lemma groupBy_Nil: "groupBy key [] = []"
  by (simp add: groupBy_def)

lemma groupBy_keys: "fst ` set (groupBy key xs) = key ` set xs"
  by (induction xs rule: rev_induct)
     (simp_all add: groupBy_Nil groupBy_snoc fst_set_group_add)

lemma groupBy_distinct: "distinct (map fst (groupBy key xs))"
  by (induction xs rule: rev_induct)
     (simp_all add: groupBy_Nil groupBy_snoc keys_group_add)

lemma filter_key_absent: "k \<notin> key ` set xs \<Longrightarrow> filter (\<lambda>y. key y = k) xs = []"
  by (induction xs) auto

lemma groupBy_buffer:
  "(k, p) \<in> set (groupBy key xs) \<Longrightarrow> p = filter (\<lambda>x. key x = k) xs \<and> p \<noteq> []"
proof (induction xs arbitrary: k p rule: rev_induct)
  case Nil
  then show ?case by (simp add: groupBy_def)
next
  case (snoc x xs)
  from snoc.prems have m: "(k, p) \<in> set (group_add (groupBy key xs) (key x) x)"
    by (simp add: groupBy_snoc)
  from mem_group_add [OF groupBy_distinct m] show ?case
  proof (elim disjE conjE exE)
    assume "k = key x" "p = [x]" "key x \<notin> fst ` set (groupBy key xs)"
    moreover from this have "key x \<notin> key ` set xs"
      using groupBy_keys [of key xs] by simp
    then have "filter (\<lambda>y. key y = key x) xs = []"
      by (rule filter_key_absent)
    ultimately show ?thesis by simp
  next
    fix q assume "k = key x" "(key x, q) \<in> set (groupBy key xs)" "p = q @ [x]"
    with snoc.IH [of "key x" q] show ?thesis by simp
  next
    assume "k \<noteq> key x" "(k, p) \<in> set (groupBy key xs)"
    with snoc.IH [of k p] show ?thesis by auto
  qed
qed

lemma partitions_nonempty: "[] \<notin> set (partitions gbd es)"
  unfolding partitions_def using groupBy_buffer by fastforce

lemma groupBy_distinct_keys:
  "distinct (map key xs) \<Longrightarrow> groupBy key xs = map (\<lambda>x. (key x, [x])) xs"
proof (induction xs rule: rev_induct)
  case Nil
  then show ?case by (simp add: groupBy_def)
next
  case (snoc x xs)
  then have "key x \<notin> fst ` set (groupBy key xs)"
    using groupBy_keys [of key xs] by auto
  with snoc show ?case
    by (simp add: groupBy_snoc group_add_fresh)
qed

section \<open>Facts about the handler of the subscription\<close>

lemma sort_c_clean [simp]: "sort_c (clean_name (clean_categoryIds c)) = sort_c c"
  by (simp add: clean_name_def clean_categoryIds_def split: option.splits list.splits)

lemma page_clean [simp]: "page (clean_name (clean_categoryIds c)) = page c"
  by (simp add: clean_name_def clean_categoryIds_def split: option.splits list.splits)

lemma subscribe_next_nonempty: "es \<noteq> [] \<Longrightarrow> subscribe_next cmp gbd gs es = Inr (absorb cmp gbd gs es)"
  by (cases es) (simp_all add: subscribe_next_def absorb_def Let_def)

lemma deliver_absorb:
  "es \<noteq> [] \<Longrightarrow> expenseGroups s = Some gs \<Longrightarrow>
     deliver cmp gbd s es = s\<lparr>expenseGroups := Some (absorb cmp gbd gs es)\<rparr>"
  by (simp add: deliver_def subscribe_next_nonempty)

lemma foldl_deliver:
  "[] \<notin> set ps \<Longrightarrow> expenseGroups s = Some gs \<Longrightarrow>
     foldl (deliver cmp gbd) s ps = s\<lparr>expenseGroups := Some (foldl (absorb cmp gbd) gs ps)\<rparr>"
proof (induction ps arbitrary: s gs)
  case Nil
  then show ?case by simp
next
  case (Cons p ps)
  then have "p \<noteq> []" and rest: "[] \<notin> set ps" by auto
  then have d: "deliver cmp gbd s p = s\<lparr>expenseGroups := Some (absorb cmp gbd gs p)\<rparr>"
    using Cons.prems(2) by (simp add: deliver_absorb)
  show ?case
    by (simp add: d Cons.IH [OF rest, of _ "absorb cmp gbd gs p"])
qed

lemma absorb_Nil: "absorb cmp gbd gs [] = gs"
  by (simp add: absorb_def subscribe_next_def)

lemma absorb_Cons:
  "absorb cmp gbd gs (e # es) =
     (if date e \<notin> date_g ` set gs \<or> \<not> gbd
      then gs @ [\<lparr>date_g = date e, expenses = sortExpenses cmp (e # es)\<rparr>]
      else merge_first cmp \<lparr>date_g = date e, expenses = sortExpenses cmp (e # es)\<rparr> gs)"
  by (auto simp: absorb_def subscribe_next_def Let_def find_None_iff image_iff)

lemma keys_merge_first: "map date_g (merge_first cmp g gs) = map date_g gs"
  by (induction gs) auto

lemma mem_merge_first:
  "h \<in> set (merge_first cmp g gs) \<Longrightarrow>
     h \<in> set gs \<or> (\<exists>other \<in> set gs. h = other\<lparr>expenses := sortExpenses cmp (expenses other @ expenses g)\<rparr>)"
  by (induction gs) (auto split: if_splits)

lemma absorb_sorted:
  assumes c: "consistent cmp"
      and gs: "\<And>g. g \<in> set gs \<Longrightarrow> name_sorted cmp (expenses g)"
      and h: "h \<in> set (absorb cmp gbd gs es)"
  shows "name_sorted cmp (expenses h)"
proof (cases es)
  case Nil
  with h gs show ?thesis by (simp add: absorb_Nil)
next
  case (Cons e es')
  show ?thesis
  proof (cases "date e \<notin> date_g ` set gs \<or> \<not> gbd")
    case True
    with h Cons have "h \<in> set gs \<or> expenses h = sortExpenses cmp es"
      by (auto simp: absorb_Cons)
    with gs c show ?thesis by (auto simp: name_sorted_sortExpenses)
  next
    case False
    with h Cons have "h \<in> set (merge_first cmp \<lparr>date_g = date e, expenses = sortExpenses cmp es\<rparr> gs)"
      by (simp add: absorb_Cons)
    from mem_merge_first [OF this] gs c show ?thesis
      by (auto simp: name_sorted_sortExpenses)
  qed
qed

lemma foldl_absorb_sorted:
  assumes c: "consistent cmp"
  shows "(\<And>g. g \<in> set gs \<Longrightarrow> name_sorted cmp (expenses g)) \<Longrightarrow>
         h \<in> set (foldl (absorb cmp gbd) gs ps) \<Longrightarrow> name_sorted cmp (expenses h)"
proof (induction ps arbitrary: gs)
  case Nil
  then show ?case by simp
next
  case (Cons p ps)
  show ?case
  proof (rule Cons.IH [of "absorb cmp gbd gs p"])
    fix g assume "g \<in> set (absorb cmp gbd gs p)"
    with c Cons.prems(1) show "name_sorted cmp (expenses g)"
      by (rule absorb_sorted)
  next
    from Cons.prems(2) show "h \<in> set (foldl (absorb cmp gbd) (absorb cmp gbd gs p) ps)"
      by simp
  qed
qed

lemma absorb_distinct:
  "distinct (map date_g gs) \<Longrightarrow> distinct (map date_g (absorb cmp True gs es))"
  by (cases es) (auto simp: absorb_Nil absorb_Cons keys_merge_first)

lemma foldl_absorb_distinct:
  "distinct (map date_g gs) \<Longrightarrow> distinct (map date_g (foldl (absorb cmp True) gs ps))"
  by (induction ps arbitrary: gs) (simp_all add: absorb_distinct)

lemma foldl_absorb_singletons:
  "foldl (absorb cmp False) gs (map (\<lambda>e. [e]) es) =
     gs @ map (\<lambda>e. \<lparr>date_g = date e, expenses = [e]\<rparr>) es"
  by (induction es arbitrary: gs) (simp_all add: absorb_Cons sortExpenses_single)

lemma partitions_by_id:
  "distinct (map id_e es) \<Longrightarrow> partitions False es = map (\<lambda>e. [e]) es"
proof -
  assume d: "distinct (map id_e es)"
  have k: "keySelector False = id_e"
    by (rule ext) (simp add: keySelector_def)
  show ?thesis
    by (simp add: partitions_def k groupBy_distinct_keys [OF d] comp_def)
qed









section \<open>Facts about requests and responses\<close>

lemma loadExpenses_response_page:
  "loadExpenses_response cmp p (Inr pg) s =
     s\<lparr>lastPageReached := last_p pg, fired := fired s @ [next_cb p],
       expenseGroups := Some (foldl (absorb cmp (groupByDate p)) (kept s)
                               (partitions (groupByDate p) (content pg))),
       loading := False\<rparr>"
  by (simp add: loadExpenses_response_def Let_def kept_def groups_of_def
        foldl_deliver [OF partitions_nonempty] split: option.splits)

lemma loadExpenses_response_failure:
  "loadExpenses_response cmp p (Inl e) s =
     s\<lparr>toasts := toasts s @ [(''Could not load expenses'', e)], loading := False\<rparr>"
  by (simp add: loadExpenses_response_def)

lemma loadExpenses_page:
  "loadExpenses fmt cmp next (Inr pg) s =
     s\<lparr>searchCriteria := clean_name (clean_categoryIds
                             ((searchCriteria s)\<lparr>yearMonth := Some (fmt (date_m s))\<rparr>)),
       lastPageReached := last_p pg, fired := fired s @ [next],
       expenseGroups := Some (foldl (absorb cmp (prefix ''date'' (sort_c (searchCriteria s)))) (kept s)
                               (partitions (prefix ''date'' (sort_c (searchCriteria s))) (content pg))),
       loading := False\<rparr>"
  by (simp add: loadExpenses_def loadExpenses_request_def Let_def loadExpenses_response_page kept_def groups_of_def)

lemma loadExpenses_failure:
  "loadExpenses fmt cmp next (Inl e) s =
     s\<lparr>searchCriteria := clean_name (clean_categoryIds
                             ((searchCriteria s)\<lparr>yearMonth := Some (fmt (date_m s))\<rparr>)),
       toasts := toasts s @ [(''Could not load expenses'', e)], loading := False\<rparr>"
  by (simp add: loadExpenses_def loadExpenses_request_def Let_def loadExpenses_response_failure)

lemma reloadExpenses_request_eq:
  "reloadExpenses_request fmt ev s =
     (s\<lparr>searchCriteria := clean_name (clean_categoryIds
          ((searchCriteria s)\<lparr>page := 0, yearMonth := Some (fmt (date_m s))\<rparr>)), loading := True\<rparr>,
      \<lparr>request = clean_name (clean_categoryIds
          ((searchCriteria s)\<lparr>page := 0, yearMonth := Some (fmt (date_m s))\<rparr>)),
       groupByDate = prefix ''date'' (sort_c (searchCriteria s)),
       next_cb = RefresherComplete ev\<rparr>)"
  by (simp add: reloadExpenses_request_def loadExpenses_request_def Let_def)

lemma groups_of_page:
  "groups_of (loadExpenses fmt cmp next (Inr pg) s) =
     foldl (absorb cmp (prefix ''date'' (sort_c (searchCriteria s)))) (kept s)
       (partitions (prefix ''date'' (sort_c (searchCriteria s))) (content pg))"
  by (simp add: groups_of_def loadExpenses_page)

lemma expenseGroups_issue:
  "expenseGroups (fst (issue fmt a s)) = expenseGroups s \<or> expenseGroups (fst (issue fmt a s)) = None"
  by (cases a)
     (simp_all add: loadExpenses_request_def valueChanges_request_def addMonths_request_def
        reloadExpenses_request_def loadNextExpensePage_request_def Let_def)

lemma groups_of_issue: "set (groups_of (fst (issue fmt a s))) \<subseteq> set (groups_of s)"
  using expenseGroups_issue [of fmt a s] by (auto simp: groups_of_def)

lemma kept_subset: "set (kept s) \<subseteq> set (groups_of s)"
  by (simp add: kept_def)

lemma groups_of_response:
  "groups_of (loadExpenses_response cmp p r s) =
     (case r of Inl e \<Rightarrow> groups_of s
      | Inr pg \<Rightarrow> foldl (absorb cmp (groupByDate p)) (kept s) (partitions (groupByDate p) (content pg)))"
  by (cases r) (simp_all add: groups_of_def loadExpenses_response_page loadExpenses_response_failure)

lemma response_sorted:
  assumes c: "consistent cmp"
      and s: "\<And>g. g \<in> set (groups_of s) \<Longrightarrow> name_sorted cmp (expenses g)"
      and h: "h \<in> set (groups_of (loadExpenses_response cmp p r s))"
  shows "name_sorted cmp (expenses h)"
proof (cases r)
  case (Inl e)
  with h s show ?thesis by (simp add: groups_of_response)
next
  case (Inr pg)
  with h have "h \<in> set (foldl (absorb cmp (groupByDate p)) (kept s)
                  (partitions (groupByDate p) (content pg)))"
    by (simp add: groups_of_response)
  moreover have "\<And>g. g \<in> set (kept s) \<Longrightarrow> name_sorted cmp (expenses g)"
    using s kept_subset by blast
  ultimately show ?thesis using foldl_absorb_sorted [OF c] by blast
qed

lemma perform_sorted:
  assumes c: "consistent cmp"
      and s: "\<And>g. g \<in> set (groups_of s) \<Longrightarrow> name_sorted cmp (expenses g)"
      and h: "h \<in> set (groups_of (perform fmt cmp s ar))"
  shows "name_sorted cmp (expenses h)"
proof -
  have "perform fmt cmp s ar =
          loadExpenses_response cmp (snd (issue fmt (fst ar) s)) (snd ar) (fst (issue fmt (fst ar) s))"
    by (simp add: perform_def split_beta)
  with h have "h \<in> set (groups_of (loadExpenses_response cmp (snd (issue fmt (fst ar) s)) (snd ar)
                   (fst (issue fmt (fst ar) s))))" by simp
  moreover have "\<And>g. g \<in> set (groups_of (fst (issue fmt (fst ar) s))) \<Longrightarrow> name_sorted cmp (expenses g)"
    using s groups_of_issue by blast
  ultimately show ?thesis using response_sorted [OF c] by blast
qed

lemma run_sorted:
  assumes c: "consistent cmp"
  shows "(\<And>g. g \<in> set (groups_of s) \<Longrightarrow> name_sorted cmp (expenses g)) \<Longrightarrow>
         h \<in> set (groups_of (run fmt cmp s ars)) \<Longrightarrow> name_sorted cmp (expenses h)"
proof (induction ars arbitrary: s)
  case Nil
  then show ?case by (simp add: run_def)
next
  case (Cons ar ars)
  have "run fmt cmp s (ar # ars) = run fmt cmp (perform fmt cmp s ar) ars"
    by (simp add: run_def)
  with Cons.prems(2) have "h \<in> set (groups_of (run fmt cmp (perform fmt cmp s ar) ars))" by simp
  moreover have "\<And>g. g \<in> set (groups_of (perform fmt cmp s ar)) \<Longrightarrow> name_sorted cmp (expenses g)"
    using perform_sorted [OF c] Cons.prems(1) by blast
  ultimately show ?case using Cons.IH by blast
qed

lemma clean_settled:
  "name_c c \<noteq> Some [] \<Longrightarrow> categoryIds c \<noteq> Some [] \<Longrightarrow> clean_name (clean_categoryIds c) = c"
  by (auto simp: clean_name_def clean_categoryIds_def split: option.splits list.splits)

lemma loadExpenses_request_settled:
  "settled fmt s \<Longrightarrow> request (snd (loadExpenses_request fmt next s)) = searchCriteria s"
  by (simp add: settled_def loadExpenses_request_def Let_def clean_settled)

lemma settled_page:
  "settled fmt s \<Longrightarrow> settled fmt (s\<lparr>searchCriteria := (searchCriteria s)\<lparr>page := n\<rparr>\<rparr>)"
  by (simp add: settled_def)

lemma filters_issue:
  assumes "settled fmt s" "filters (request (snd (issue fmt a s))) \<noteq> filters (searchCriteria s)"
  shows "page (request (snd (issue fmt a s))) = 0"
proof (cases a)
  case LoadExpenses
  with assms show ?thesis by (simp add: loadExpenses_request_settled)
next
  case (ValueChanges v)
  then show ?thesis by (simp add: valueChanges_request_def loadExpenses_request_def Let_def)
next
  case (AddMonths n)
  then show ?thesis
    by (simp add: addMonths_request_def reloadExpenses_request_def loadExpenses_request_def Let_def)
next
  case (ReloadExpenses ev)
  then show ?thesis by (simp add: reloadExpenses_request_def loadExpenses_request_def Let_def)
next
  case LoadNextExpensePage
  with assms loadExpenses_request_settled [OF settled_page [OF assms(1)]]
  show ?thesis by (simp add: loadNextExpensePage_request_def filters_def)
qed

lemma sort_issue:
  "sort_c (searchCriteria (fst (issue fmt a s))) =
     (case a of ValueChanges v \<Rightarrow> sort_v v | _ \<Rightarrow> sort_c (searchCriteria s))"
  by (cases a)
     (simp_all add: loadExpenses_request_def valueChanges_request_def addMonths_request_def
        reloadExpenses_request_def loadNextExpensePage_request_def Let_def)

lemma groupByDate_issue:
  "groupByDate (snd (issue fmt a s)) = prefix ''date'' (sort_c (searchCriteria (fst (issue fmt a s))))"
  by (cases a)
     (simp_all add: loadExpenses_request_def valueChanges_request_def addMonths_request_def
        reloadExpenses_request_def loadNextExpensePage_request_def Let_def)

lemma searchCriteria_response:
  "searchCriteria (loadExpenses_response cmp p r s) = searchCriteria s"
  by (cases r) (simp_all add: loadExpenses_response_page loadExpenses_response_failure)

lemma distinct_kept: "distinct (map date_g (groups_of s)) \<Longrightarrow> distinct (map date_g (kept s))"
  by (simp add: kept_def)

lemma response_distinct:
  assumes "groupByDate p" "distinct (map date_g (groups_of s))"
  shows "distinct (map date_g (groups_of (loadExpenses_response cmp p r s)))"
  using assms
  by (cases r) (simp_all add: groups_of_response foldl_absorb_distinct distinct_kept)

lemma distinct_issue:
  "distinct (map date_g (groups_of s)) \<Longrightarrow> distinct (map date_g (groups_of (fst (issue fmt a s))))"
  using expenseGroups_issue [of fmt a s] by (auto simp: groups_of_def)

lemma perform_distinct:
  assumes a: "date_based (fst ar)"
      and s: "prefix ''date'' (sort_c (searchCriteria s))"
      and d: "distinct (map date_g (groups_of s))"
  shows "prefix ''date'' (sort_c (searchCriteria (perform fmt cmp s ar)))
         \<and> distinct (map date_g (groups_of (perform fmt cmp s ar)))"
proof -
  let ?s' = "fst (issue fmt (fst ar) s)" and ?p = "snd (issue fmt (fst ar) s)"
  have eq: "perform fmt cmp s ar = loadExpenses_response cmp ?p (snd ar) ?s'"
    by (simp add: perform_def split_beta)
  have "sort_c (searchCriteria ?s') =
          (case fst ar of ValueChanges v \<Rightarrow> sort_v v | _ \<Rightarrow> sort_c (searchCriteria s))"
    by (rule sort_issue)
  with a s have s': "prefix ''date'' (sort_c (searchCriteria ?s'))"
    by (cases "fst ar") simp_all
  then have g: "groupByDate ?p" by (simp add: groupByDate_issue)
  from d have "distinct (map date_g (groups_of ?s'))" by (rule distinct_issue)
  with g have "distinct (map date_g (groups_of (loadExpenses_response cmp ?p (snd ar) ?s')))"
    by (rule response_distinct)
  with s' show ?thesis by (simp add: eq searchCriteria_response)
qed

section \<open>Facts about the sample data\<close>

lemma codeCompare_sign: "(codeCompare a b < 0) = (0 < codeCompare b a)"
  by (induction a b rule: codeCompare.induct) auto

lemma codeCompare_trans:
  "codeCompare a b \<le> 0 \<Longrightarrow> codeCompare b c \<le> 0 \<Longrightarrow> codeCompare a c \<le> 0"
proof (induction a b arbitrary: c rule: codeCompare.induct)
  case 1
  then show ?case by simp
next
  case (2 y ys)
  then show ?case by (cases c) auto
next
  case (3 x xs)
  then show ?case by simp
next
  case (4 x xs y ys)
  show ?case
  proof (cases c)
    case Nil
    with 4 show ?thesis by simp
  next
    case (Cons z zs)
    with "4.prems" "4.IH" [of zs] show ?thesis
      by (auto split: if_splits)
  qed
qed

lemma consistent_codeCompare: "consistent codeCompare"
  unfolding consistent_def using codeCompare_sign codeCompare_trans by blast

lemmas sample_defs = bread_def milk_def eggs_def mkExpense_def period_def samplePage_def
  nextPage_def initial_def initialSort_def

lemmas load_defs = loadExpenses_def loadExpenses_request_def loadExpenses_response_def
  clean_name_def clean_categoryIds_def Let_def

lemma scenarioB_groups:
  "groups_of (run period codeCompare (initial 0) scenarioB)
     = [\<lparr>date_g = ''2024-01-05'', expenses = [bread, eggs, milk]\<rparr>]"
  by (simp add: scenarioB_def run_def perform_def loadNextExpensePage_request_def
        groups_of_def load_defs sample_defs partitions_def groupBy_def
        keySelector_def deliver_def subscribe_next_def sortExpenses_def array_sort_def)

lemma scrolled_criteria:
  "searchCriteria scrolled = \<lparr>page = 1, size_c = 25, sort_c = ''date,desc'', name_c = None,
                        categoryIds = None, yearMonth = Some ''2024-01''\<rparr>"
  by (simp add: scrolled_def scenarioB_def run_def perform_def loadNextExpensePage_request_def
        loadExpenses_request_def Let_def loadExpenses_response_page clean_name_def
        clean_categoryIds_def initial_def initialSort_def period_def)

lemma scrolled_date: "date_m scrolled = 0"
  by (simp add: scrolled_def scenarioB_def run_def perform_def loadNextExpensePage_request_def
        loadExpenses_request_def Let_def loadExpenses_response_page initial_def)

lemma scrolled_last: "lastPageReached scrolled = True"
  by (simp add: scrolled_def scenarioB_def run_def perform_def
        loadNextExpensePage_request_def loadExpenses_request_def Let_def
        loadExpenses_response_page nextPage_def)

lemma scrolled_groups:
  "expenseGroups scrolled = Some [\<lparr>date_g = ''2024-01-05'', expenses = [bread, eggs, milk]\<rparr>]"
  using scenarioB_groups by (simp add: scrolled_def groups_of_def split: option.splits)

lemma failedSwitch_state:
  "groups_of (run period codeCompare (initial 0) failedSwitch)
     = [\<lparr>date_g = ''2024-01-05'', expenses = [milk]\<rparr>, \<lparr>date_g = ''2024-01-05'', expenses = [bread]\<rparr>]
   \<and> sort_c (searchCriteria (run period codeCompare (initial 0) failedSwitch)) = ''date,desc''
   \<and> page (searchCriteria (run period codeCompare (initial 0) failedSwitch)) = 0"
  by (simp add: failedSwitch_def run_def perform_def valueChanges_request_def sortByName_def
        sortByDate_def groups_of_def load_defs sample_defs partitions_def groupBy_def
        keySelector_def deliver_def subscribe_next_def sortExpenses_def array_sort_def)

lemma duplicated_criteria:
  "searchCriteria duplicated = \<lparr>page = 0, size_c = 25, sort_c = ''date,desc'', name_c = None,
                        categoryIds = None, yearMonth = Some ''2024-01''\<rparr>"
  by (simp add: duplicated_def failedSwitch_def run_def perform_def valueChanges_request_def
        sortByName_def sortByDate_def loadExpenses_request_def Let_def loadExpenses_response_page
        loadExpenses_response_failure clean_name_def clean_categoryIds_def initial_def
        initialSort_def period_def)

section \<open>Facts about merging and about first pages\<close>

lemma merge_first_distinct:
  "distinct (map date_g gs) \<Longrightarrow>
     merge_first cmp g gs =
       map (\<lambda>h. if date_g h = date_g g
                then h\<lparr>expenses := sortExpenses cmp (expenses h @ expenses g)\<rparr> else h) gs"
proof (induction gs)
  case Nil
  then show ?case by simp
next
  case (Cons other rest)
  show ?case
  proof (cases "date_g other = date_g g")
    case True
    with Cons.prems have "date_g g \<notin> date_g ` set rest" by simp
    then have "\<And>h. h \<in> set rest \<Longrightarrow> date_g h \<noteq> date_g g" by (metis imageI)
    then have "map (\<lambda>h. if date_g h = date_g g
                then h\<lparr>expenses := sortExpenses cmp (expenses h @ expenses g)\<rparr> else h) rest = rest"
      by (simp add: map_idI)
    with True show ?thesis by simp
  next
    case False
    with Cons show ?thesis by simp
  qed
qed

lemma subscribe_next_date:
  assumes "distinct (map date_g gs)"
  shows "subscribe_next cmp True gs (e # es) =
     Inr (if date e \<in> date_g ` set gs
          then map (\<lambda>h. if date_g h = date e
                         then h\<lparr>expenses := sortExpenses cmp (expenses h @ sortExpenses cmp (e # es))\<rparr>
                         else h) gs
          else gs @ [\<lparr>date_g = date e, expenses = sortExpenses cmp (e # es)\<rparr>])"
  using merge_first_distinct [OF assms, of cmp "\<lparr>date_g = date e, expenses = sortExpenses cmp (e # es)\<rparr>"]
  by (simp add: subscribe_next_nonempty absorb_Cons)

lemma request_issue: "request (snd (issue fmt a s)) = searchCriteria (fst (issue fmt a s))"
  by (cases a)
     (simp_all add: loadExpenses_request_def valueChanges_request_def addMonths_request_def
        reloadExpenses_request_def loadNextExpensePage_request_def Let_def)

lemma perform_eq:
  "perform fmt cmp s ar =
     loadExpenses_response cmp (snd (issue fmt (fst ar) s)) (snd ar) (fst (issue fmt (fst ar) s))"
  by (simp add: perform_def split_beta)

lemma run_Cons: "run fmt cmp s (ar # ars) = run fmt cmp (perform fmt cmp s ar) ars"
  by (simp add: run_def)

lemma run_distinct:
  "prefix ''date'' (sort_c (searchCriteria s)) \<Longrightarrow> distinct (map date_g (groups_of s)) \<Longrightarrow>
   list_all date_based (map fst ars) \<Longrightarrow>
     distinct (map date_g (groups_of (run fmt cmp s ars)))"
proof (induction ars arbitrary: s)
  case Nil
  then show ?case by (simp add: run_def)
next
  case (Cons ar ars)
  from Cons.prems have a: "date_based (fst ar)" and rest: "list_all date_based (map fst ars)"
    by simp_all
  from perform_distinct [OF a Cons.prems(1) Cons.prems(2), of fmt cmp]
  have "distinct (map date_g (groups_of (run fmt cmp (perform fmt cmp s ar) ars)))"
    using Cons.IH rest by blast
  then show ?case by (simp add: run_def)
qed

lemma first_page_distinct:
  assumes g: "groupByDate (snd (issue fmt a s))"
      and p: "page (request (snd (issue fmt a s))) = 0"
  shows "prefix ''date'' (sort_c (searchCriteria (perform fmt cmp s (a, Inr pg))))
         \<and> distinct (map date_g (groups_of (perform fmt cmp s (a, Inr pg))))"
proof -
  let ?s' = "fst (issue fmt a s)" and ?p = "snd (issue fmt a s)"
  from p have "kept ?s' = []" by (simp add: request_issue kept_def)
  then have "distinct (map date_g (groups_of (perform fmt cmp s (a, Inr pg))))"
    using g by (simp add: perform_eq groups_of_response foldl_absorb_distinct)
  moreover from g have "prefix ''date'' (sort_c (searchCriteria (perform fmt cmp s (a, Inr pg))))"
    by (simp add: perform_eq searchCriteria_response groupByDate_issue)
  ultimately show ?thesis by simp
qed

section \<open>The claims\<close>

subsection \<open>C1: a failed fetch and the completion callback\<close>

text \<open>
  Claim C1 says that after a failed fetch the loading flag is cleared, the completion
  callback passed to the load still fires, and the error goes once to the notifier with a
  static description. The component is evaluated on a pull to refresh of the fresh
  component whose fetch fails: the flag is cleared and the toast is shown once, but no
  callback has been invoked, because \<^verbatim>\<open>next()\<close> is called in the projection of
  \<^verbatim>\<open>mergeMap\<close>, which a failure skips. \<^verbatim>\<open>loadCategories\<close> of the same
  component calls \<^verbatim>\<open>next()\<close> in \<^verbatim>\<open>finalize\<close> and does invoke it.
\<close>

theorem failed_fetch_skips_completion_callback:
  "fired (perform period codeCompare (initial 0) (ReloadExpenses True, Inl (Error ''offline''))) = []
   \<and> loading (perform period codeCompare (initial 0) (ReloadExpenses True, Inl (Error ''offline''))) = False
   \<and> toasts (perform period codeCompare (initial 0) (ReloadExpenses True, Inl (Error ''offline'')))
       = [(''Could not load expenses'', Error ''offline'')]
   \<and> fired (loadCategories (RefresherComplete True) (Inl (Error ''offline'')) (initial 0))
       = [RefresherComplete True]"
  by (simp add: perform_def reloadExpenses_request_def load_defs initial_def
        loadCategories_def loadCategories_request_def loadCategories_response_def)

subsection \<open>C2: a failed fetch and the aggregation state\<close>

text \<open>
  Claim C2: a load whose fetch fails leaves the groups and the last-page flag exactly as
  they were, ends with the loading flag cleared, and adds exactly one error report; on
  the fresh component the groups remain null.
\<close>

theorem failed_fetch_keeps_aggregation:
  "expenseGroups (loadExpenses fmt cmp next (Inl e) s) = expenseGroups s
   \<and> lastPageReached (loadExpenses fmt cmp next (Inl e) s) = lastPageReached s
   \<and> loading (loadExpenses fmt cmp next (Inl e) s) = False
   \<and> toasts (loadExpenses fmt cmp next (Inl e) s) = toasts s @ [(''Could not load expenses'', e)]
   \<and> expenseGroups (loadExpenses fmt cmp next (Inl e) (initial today)) = None"
  by (simp add: loadExpenses_failure initial_def)

text \<open>Scenario C of the specification, and a failure after scenario B.\<close>

theorem failed_fetch_keeps_aggregation_witness:
  "expenseGroups (loadExpenses period codeCompare InfiniteScrollComplete (Inl (Error ''offline'')) scrolled)
     = Some [\<lparr>date_g = ''2024-01-05'', expenses = [bread, eggs, milk]\<rparr>]
   \<and> loading (loadExpenses period codeCompare InfiniteScrollComplete (Inl (Error ''offline'')) scrolled)
       = False
   \<and> toasts (loadExpenses period codeCompare InfiniteScrollComplete (Inl (Error ''offline'')) scrolled)
       = toasts scrolled @ [(''Could not load expenses'', Error ''offline'')]
   \<and> expenseGroups (loadExpenses period codeCompare InfiniteScrollComplete (Inl (Error ''offline''))
        (initial 0)) = None"
proof -
  have "expenseGroups scrolled = Some [\<lparr>date_g = ''2024-01-05'', expenses = [bread, eggs, milk]\<rparr>]"
    using scenarioB_groups by (simp add: scrolled_def groups_of_def split: option.splits)
  with failed_fetch_keeps_aggregation
         [of period codeCompare InfiniteScrollComplete "Error ''offline''" scrolled 0]
  show ?thesis by simp
qed

subsection \<open>C3: reloading\<close>

text \<open>
  Claim C3 says that a reload sets the page index to 0, clears the last-page flag and
  loads a first page, before any response. The flag is not cleared: after scenario B it
  is set, and it is still set when the request of a reload has been issued.
\<close>

theorem reload_keeps_last_flag_counterexample:
  "lastPageReached scrolled = True
   \<and> lastPageReached (fst (reloadExpenses_request period True scrolled)) = True"
  by (simp add: reloadExpenses_request_eq scrolled_def scenarioB_def run_def perform_def
        loadNextExpensePage_request_def loadExpenses_request_def Let_def
        loadExpenses_response_page nextPage_def)

text \<open>
  Claim C3 as amended: a reload sets the page index to 0, sets the loading flag and issues
  the request of a first page with its completion callback, leaving the last-page flag
  and the groups as they are until a response arrives; a page that answers this request
  replaces all groups by the groups of that page, overwrites the last-page flag with the
  flag of the page, invokes the callback and clears the loading flag.
\<close>

theorem reload_requests_first_page:
  "page (searchCriteria (fst (reloadExpenses_request fmt ev s))) = 0
   \<and> page (request (snd (reloadExpenses_request fmt ev s))) = 0
   \<and> loading (fst (reloadExpenses_request fmt ev s)) = True
   \<and> next_cb (snd (reloadExpenses_request fmt ev s)) = RefresherComplete ev
   \<and> lastPageReached (fst (reloadExpenses_request fmt ev s)) = lastPageReached s
   \<and> expenseGroups (fst (reloadExpenses_request fmt ev s)) = expenseGroups s
   \<and> expenseGroups (loadExpenses_response cmp (snd (reloadExpenses_request fmt ev s)) (Inr pg)
        (fst (reloadExpenses_request fmt ev s)))
       = Some (foldl (absorb cmp (prefix ''date'' (sort_c (searchCriteria s)))) []
                 (partitions (prefix ''date'' (sort_c (searchCriteria s))) (content pg)))
   \<and> lastPageReached (loadExpenses_response cmp (snd (reloadExpenses_request fmt ev s)) (Inr pg)
        (fst (reloadExpenses_request fmt ev s))) = last_p pg
   \<and> loading (loadExpenses_response cmp (snd (reloadExpenses_request fmt ev s)) (Inr pg)
        (fst (reloadExpenses_request fmt ev s))) = False
   \<and> fired (loadExpenses_response cmp (snd (reloadExpenses_request fmt ev s)) (Inr pg)
        (fst (reloadExpenses_request fmt ev s))) = fired s @ [RefresherComplete ev]"
  by (simp add: reloadExpenses_request_eq loadExpenses_response_page kept_def)

text \<open>After scenario B the flag is set; a reload keeps it until a page that is not the
  last one arrives.\<close>

theorem reload_requests_first_page_witness:
  "page (searchCriteria scrolled) = 1
   \<and> lastPageReached scrolled = True
   \<and> page (searchCriteria (fst (reloadExpenses_request period True scrolled))) = 0
   \<and> page (request (snd (reloadExpenses_request period True scrolled))) = 0
   \<and> loading (fst (reloadExpenses_request period True scrolled)) = True
   \<and> next_cb (snd (reloadExpenses_request period True scrolled)) = RefresherComplete True
   \<and> lastPageReached (fst (reloadExpenses_request period True scrolled)) = True
   \<and> expenseGroups (fst (reloadExpenses_request period True scrolled))
       = Some [\<lparr>date_g = ''2024-01-05'', expenses = [bread, eggs, milk]\<rparr>]
   \<and> expenseGroups (loadExpenses_response codeCompare (snd (reloadExpenses_request period True scrolled))
        (Inr morePage) (fst (reloadExpenses_request period True scrolled)))
       = Some [\<lparr>date_g = ''2024-01-05'', expenses = [eggs]\<rparr>]
   \<and> lastPageReached (loadExpenses_response codeCompare (snd (reloadExpenses_request period True scrolled))
        (Inr morePage) (fst (reloadExpenses_request period True scrolled))) = False"
  using reload_requests_first_page [of period True scrolled codeCompare morePage]
  by (simp add: scrolled_criteria scrolled_last scrolled_groups morePage_def eggs_def mkExpense_def
        partitions_def groupBy_def keySelector_def absorb_Cons sortExpenses_single)

subsection \<open>C4: merging into the group of a date\<close>



subsection \<open>C5: the expenses of a group are sorted by name\<close>

text \<open>
  Claim C5: after any sequence of loads of the component, answered by any pages or
  failures under any sort, the expenses of every group are sorted ascending by the
  comparison of their names.
\<close>

theorem groups_sorted_by_name:
  assumes "consistent cmp" and "g \<in> set (groups_of (run fmt cmp (initial today) ars))"
  shows "name_sorted cmp (expenses g)"
proof (rule run_sorted [OF assms(1) _ assms(2)])
  fix h assume "h \<in> set (groups_of (initial today))"
  then show "name_sorted cmp (expenses h)" by (simp add: groups_of_def initial_def)
qed

theorem groups_sorted_by_name_witness:
  "consistent codeCompare
   \<and> \<lparr>date_g = ''2024-01-05'', expenses = [bread, eggs, milk]\<rparr>
       \<in> set (groups_of (run period codeCompare (initial 0) scenarioB))
   \<and> name_sorted codeCompare (expenses \<lparr>date_g = ''2024-01-05'', expenses = [bread, eggs, milk]\<rparr>)"
proof -
  have m: "\<lparr>date_g = ''2024-01-05'', expenses = [bread, eggs, milk]\<rparr>
       \<in> set (groups_of (run period codeCompare (initial 0) scenarioB))"
    by (simp add: scenarioB_groups)
  from groups_sorted_by_name [OF consistent_codeCompare m] consistent_codeCompare m
  show ?thesis by blast
qed

subsection \<open>C6: loading a first page twice\<close>

text \<open>
  Claim C6: with the page index 0, loading the same page a second time leaves the groups,
  the last-page flag and the loading flag as the first load left them.
\<close>

theorem first_page_load_idempotent:
  assumes "page (searchCriteria s) = 0"
  shows "expenseGroups (loadExpenses fmt cmp n2 (Inr pg) (loadExpenses fmt cmp n1 (Inr pg) s))
           = expenseGroups (loadExpenses fmt cmp n1 (Inr pg) s)
       \<and> lastPageReached (loadExpenses fmt cmp n2 (Inr pg) (loadExpenses fmt cmp n1 (Inr pg) s))
           = lastPageReached (loadExpenses fmt cmp n1 (Inr pg) s)
       \<and> loading (loadExpenses fmt cmp n2 (Inr pg) (loadExpenses fmt cmp n1 (Inr pg) s))
           = loading (loadExpenses fmt cmp n1 (Inr pg) s)"
  using assms by (simp add: loadExpenses_page kept_def)

text \<open>Scenario A of the specification, loaded twice.\<close>

theorem first_page_load_idempotent_witness:
  "page (searchCriteria (initial 0)) = 0
   \<and> expenseGroups (loadExpenses period codeCompare NoCallback (Inr samplePage)
        (loadExpenses period codeCompare NoCallback (Inr samplePage) (initial 0)))
       = expenseGroups (loadExpenses period codeCompare NoCallback (Inr samplePage) (initial 0))
   \<and> expenseGroups (loadExpenses period codeCompare NoCallback (Inr samplePage) (initial 0))
       = Some [\<lparr>date_g = ''2024-01-05'', expenses = [bread, milk]\<rparr>]"
proof -
  have h: "page (searchCriteria (initial 0)) = 0" by (simp add: initial_def)
  have g: "expenseGroups (loadExpenses period codeCompare NoCallback (Inr samplePage) (initial 0))
       = Some [\<lparr>date_g = ''2024-01-05'', expenses = [bread, milk]\<rparr>]"
    by (simp add: load_defs sample_defs partitions_def groupBy_def keySelector_def deliver_def
          subscribe_next_def sortExpenses_def array_sort_def)
  from first_page_load_idempotent [OF h, of period codeCompare NoCallback samplePage NoCallback] h g
  show ?thesis by simp
qed

subsection \<open>C7: one group per record under a sort that is not date-based\<close>

text \<open>
  Claim C7: under a sort that does not start with \<open>date\<close>, a page whose records have
  distinct identifiers adds one singleton group per record, in the order of the page,
  whatever the dates; the groups before it are kept unless the page index is 0.
\<close>

theorem non_date_sort_singleton_groups:
  assumes "\<not> prefix ''date'' (sort_c (searchCriteria s))"
      and "distinct (map id_e (content pg))"
  shows "expenseGroups (loadExpenses fmt cmp next (Inr pg) s) =
           Some ((if page (searchCriteria s) = 0 then [] else groups_of s)
                 @ map (\<lambda>e. \<lparr>date_g = date e, expenses = [e]\<rparr>) (content pg))"
  using assms by (simp add: loadExpenses_page partitions_by_id foldl_absorb_singletons kept_def)

text \<open>Milk and bread share their date and stay apart under the sort by name.\<close>

theorem non_date_sort_singleton_groups_witness:
  "\<not> prefix ''date'' (sort_c (searchCriteria byName))
   \<and> distinct (map id_e (content samplePage))
   \<and> expenseGroups (loadExpenses period codeCompare NoCallback (Inr samplePage) byName)
       = Some [\<lparr>date_g = ''2024-01-05'', expenses = [milk]\<rparr>,
               \<lparr>date_g = ''2024-01-05'', expenses = [bread]\<rparr>]"
proof -
  have s: "\<not> prefix ''date'' (sort_c (searchCriteria byName))"
    by (simp add: byName_def initial_def)
  have d: "distinct (map id_e (content samplePage))"
    by (simp add: sample_defs)
  from non_date_sort_singleton_groups [OF s d, of period codeCompare NoCallback] s d
  show ?thesis by (simp add: byName_def sample_defs)
qed

subsection \<open>C8: a change of the criteria resets the page index\<close>

text \<open>
  Claim C8: the load issued by a change of the search form (name, category ids, sort) and
  the load issued by a change of the month carry the page index 0 together with the new
  value; and whatever the action, once the criteria are as a load leaves them, a
  request whose filters or sort differ from the criteria before it carries the page
  index 0.
\<close>

theorem criteria_change_resets_page:
  "page (request (snd (valueChanges_request fmt v s))) = 0
   \<and> page (searchCriteria (fst (valueChanges_request fmt v s))) = 0
   \<and> sort_c (request (snd (valueChanges_request fmt v s))) = sort_v v
   \<and> page (request (snd (addMonths_request fmt n s))) = 0
   \<and> page (searchCriteria (fst (addMonths_request fmt n s))) = 0
   \<and> yearMonth (request (snd (addMonths_request fmt n s))) = Some (fmt (date_m s + n))
   \<and> (settled fmt s \<longrightarrow> filters (request (snd (issue fmt a s))) \<noteq> filters (searchCriteria s)
        \<longrightarrow> page (request (snd (issue fmt a s))) = 0)"
  using filters_issue [of fmt s a]
  by (simp add: valueChanges_request_def addMonths_request_def reloadExpenses_request_def
        loadExpenses_request_def Let_def clean_name_def clean_categoryIds_def
        split: option.splits list.splits)

text \<open>On the second page, a new value of the search form.\<close>

theorem criteria_change_resets_page_witness:
  "settled period scrolled
   \<and> page (searchCriteria scrolled) = 1
   \<and> filters (request (snd (issue period (ValueChanges newFilter) scrolled)))
       \<noteq> filters (searchCriteria scrolled)
   \<and> page (request (snd (issue period (ValueChanges newFilter) scrolled))) = 0"
proof -
  have s: "settled period scrolled"
    by (simp add: settled_def scrolled_criteria scrolled_date period_def)
  have f: "filters (request (snd (issue period (ValueChanges newFilter) scrolled)))
       \<noteq> filters (searchCriteria scrolled)"
    by (simp add: filters_def valueChanges_request_def loadExpenses_request_def Let_def
          clean_name_def clean_categoryIds_def newFilter_def scrolled_criteria)
  from criteria_change_resets_page [of period newFilter scrolled 0 "ValueChanges newFilter"] s f
  show ?thesis by (simp add: scrolled_criteria)
qed

subsection \<open>C9: no empty partition\<close>

text \<open>
  Claim C9: the grouping of a page never yields an empty array, so the handler never
  throws on \<^verbatim>\<open>expenses[0].date\<close>, and a load leaves no unhandled exception.
\<close>

theorem partitions_never_empty:
  "[] \<notin> set (partitions gbd es)
   \<and> Inl TypeError \<notin> subscribe_next cmp gbd' gs ` set (partitions gbd es)
   \<and> unhandled (loadExpenses fmt cmp next r s) = unhandled s"
proof (intro conjI)
  show "[] \<notin> set (partitions gbd es)" by (rule partitions_nonempty)
  show "Inl TypeError \<notin> subscribe_next cmp gbd' gs ` set (partitions gbd es)"
  proof
    assume "Inl TypeError \<in> subscribe_next cmp gbd' gs ` set (partitions gbd es)"
    then obtain p where p: "p \<in> set (partitions gbd es)" "subscribe_next cmp gbd' gs p = Inl TypeError"
      by force
    from p(1) partitions_nonempty [of gbd es] have "p \<noteq> []" by metis
    with p(2) show False by (simp add: subscribe_next_nonempty)
  qed
  show "unhandled (loadExpenses fmt cmp next r s) = unhandled s"
    by (cases r) (simp_all add: loadExpenses_failure loadExpenses_page)
qed

theorem partitions_never_empty_witness:
  "partitions True (content samplePage) = [[milk, bread]]
   \<and> [] \<notin> set (partitions True (content samplePage))
   \<and> unhandled (loadExpenses period codeCompare NoCallback (Inr samplePage) (initial 0)) = []"
proof -
  have "partitions True (content samplePage) = [[milk, bread]]"
    by (simp add: partitions_def groupBy_def keySelector_def sample_defs)
  with partitions_never_empty
         [of True "content samplePage" codeCompare True "[]" period NoCallback "Inr samplePage" "initial 0"]
  show ?thesis by (simp add: initial_def)
qed

subsection \<open>C10: one group per date under a date-based sort\<close>

text \<open>
  Claim C10 says that while the active sort starts with \<open>date\<close> no two groups ever
  share a date, across successive loads started from the empty state. From the fresh
  component, a page loaded under the sort by name leaves two groups of one date; the
  switch back to the sort by date resets the groups only when its page arrives, so when
  that fetch fails the two groups stay while the sort starts with \<open>date\<close>, and the
  next page under that sort keeps them.
\<close>

theorem date_keys_repeated_counterexample:
  "prefix ''date'' (sort_c (searchCriteria (run period codeCompare (initial 0) failedSwitch)))
   \<and> map date_g (groups_of (run period codeCompare (initial 0) failedSwitch))
       = [''2024-01-05'', ''2024-01-05'']
   \<and> \<not> distinct (map date_g (groups_of (run period codeCompare (initial 0) failedSwitch)))
   \<and> map date_g (groups_of (run period codeCompare (initial 0)
        (failedSwitch @ [(LoadNextExpensePage, Inr nextPage)])))
       = [''2024-01-05'', ''2024-01-05'']"
  by (simp add: failedSwitch_def run_def perform_def valueChanges_request_def sortByName_def
        sortByDate_def loadNextExpensePage_request_def groups_of_def load_defs sample_defs
        partitions_def groupBy_def keySelector_def deliver_def subscribe_next_def
        sortExpenses_def array_sort_def)

text \<open>
  Claim C10 as amended. Under a date-based sort the handler, on groups with distinct
  dates, either merges an array into the one group of its date (whose expenses become
  the sorted concatenation, all else unchanged) or appends a group of a new date, and a
  page is the handler run over its partitions. Hence the dates of the groups are
  distinct after any sequence of loads that keeps the sort date-based, pages or
  failures, from a state whose groups have distinct dates, the empty one in particular;
  and from any state at all after a page that answers a request with a date-based sort
  and the page index 0, and the loads after it that keep the sort date-based.
\<close>

theorem date_keys_distinct:
  "(distinct (map date_g gs) \<longrightarrow>
      subscribe_next cmp True gs (e # es) =
        Inr (if date e \<in> date_g ` set gs
             then map (\<lambda>h. if date_g h = date e
                            then h\<lparr>expenses := sortExpenses cmp (expenses h @ sortExpenses cmp (e # es))\<rparr>
                            else h) gs
             else gs @ [\<lparr>date_g = date e, expenses = sortExpenses cmp (e # es)\<rparr>]))
   \<and> groups_of (loadExpenses fmt cmp next (Inr pg) s) =
        foldl (absorb cmp (prefix ''date'' (sort_c (searchCriteria s)))) (kept s)
          (partitions (prefix ''date'' (sort_c (searchCriteria s))) (content pg))
   \<and> (prefix ''date'' (sort_c (searchCriteria s)) \<longrightarrow> distinct (map date_g (groups_of s)) \<longrightarrow>
        list_all date_based (map fst ars) \<longrightarrow>
          distinct (map date_g (groups_of (run fmt cmp s ars))))
   \<and> (groupByDate (snd (issue fmt a t)) \<longrightarrow> page (request (snd (issue fmt a t))) = 0 \<longrightarrow>
        list_all date_based (map fst brs) \<longrightarrow>
          distinct (map date_g (groups_of (run fmt cmp t ((a, Inr pg) # brs)))))"
proof (intro conjI impI)
  assume "distinct (map date_g gs)"
  then show "subscribe_next cmp True gs (e # es) =
        Inr (if date e \<in> date_g ` set gs
             then map (\<lambda>h. if date_g h = date e
                            then h\<lparr>expenses := sortExpenses cmp (expenses h @ sortExpenses cmp (e # es))\<rparr>
                            else h) gs
             else gs @ [\<lparr>date_g = date e, expenses = sortExpenses cmp (e # es)\<rparr>])"
    by (rule subscribe_next_date)
next
  show "groups_of (loadExpenses fmt cmp next (Inr pg) s) =
        foldl (absorb cmp (prefix ''date'' (sort_c (searchCriteria s)))) (kept s)
          (partitions (prefix ''date'' (sort_c (searchCriteria s))) (content pg))"
    by (rule groups_of_page)
next
  assume "prefix ''date'' (sort_c (searchCriteria s))" "distinct (map date_g (groups_of s))"
    "list_all date_based (map fst ars)"
  then show "distinct (map date_g (groups_of (run fmt cmp s ars)))"
    by (rule run_distinct)
next
  assume g: "groupByDate (snd (issue fmt a t))" and p: "page (request (snd (issue fmt a t))) = 0"
    and rest: "list_all date_based (map fst brs)"
  from first_page_distinct [OF g p, of cmp pg] rest
  show "distinct (map date_g (groups_of (run fmt cmp t ((a, Inr pg) # brs))))"
    by (simp add: run_Cons run_distinct)
qed

text \<open>Eggs merge into the group of bread and milk; scenario B keeps one group; and a
  reload answered by a page repairs the two groups of one date left by the failed switch.\<close>

theorem date_keys_distinct_witness:
  "distinct (map date_g [\<lparr>date_g = ''2024-01-05'', expenses = [bread, milk]\<rparr>])
   \<and> subscribe_next codeCompare True [\<lparr>date_g = ''2024-01-05'', expenses = [bread, milk]\<rparr>] [eggs]
       = Inr [\<lparr>date_g = ''2024-01-05'', expenses = [bread, eggs, milk]\<rparr>]
   \<and> prefix ''date'' (sort_c (searchCriteria (initial 0)))
   \<and> distinct (map date_g (groups_of (initial 0)))
   \<and> list_all date_based (map fst scenarioB)
   \<and> distinct (map date_g (groups_of (run period codeCompare (initial 0) scenarioB)))
   \<and> \<not> distinct (map date_g (groups_of duplicated))
   \<and> groupByDate (snd (issue period (ReloadExpenses True) duplicated))
   \<and> page (request (snd (issue period (ReloadExpenses True) duplicated))) = 0
   \<and> list_all date_based (map fst [(LoadNextExpensePage, Inr nextPage :: error + ExpensePage)])
   \<and> distinct (map date_g (groups_of (run period codeCompare duplicated
        ((ReloadExpenses True, Inr samplePage) # [(LoadNextExpensePage, Inr nextPage)]))))"
proof -
  have 1: "prefix ''date'' (sort_c (searchCriteria (initial 0)))"
    by (simp add: initial_def initialSort_def)
  have 2: "distinct (map date_g (groups_of (initial 0)))"
    by (simp add: initial_def groups_of_def)
  have 3: "list_all date_based (map fst scenarioB)"
    by (simp add: scenarioB_def)
  have 4: "\<not> distinct (map date_g (groups_of duplicated))"
    using failedSwitch_state by (simp add: duplicated_def)
  have 5: "groupByDate (snd (issue period (ReloadExpenses True) duplicated))"
    by (simp add: reloadExpenses_request_eq duplicated_criteria)
  have 6: "page (request (snd (issue period (ReloadExpenses True) duplicated))) = 0"
    by (simp add: reloadExpenses_request_eq)
  have 7: "list_all date_based (map fst [(LoadNextExpensePage, Inr nextPage :: error + ExpensePage)])"
    by simp
  have 8: "distinct (map date_g [\<lparr>date_g = ''2024-01-05'', expenses = [bread, milk]\<rparr>])"
    by simp
  have 9: "sortExpenses codeCompare ([bread, milk] @ sortExpenses codeCompare [eggs]) = [bread, eggs, milk]"
    by (simp add: sortExpenses_def array_sort_def sample_defs)
  from date_keys_distinct [of "[\<lparr>date_g = ''2024-01-05'', expenses = [bread, milk]\<rparr>]" codeCompare eggs "[]"
         period NoCallback samplePage "initial 0" scenarioB "ReloadExpenses True" duplicated
         "[(LoadNextExpensePage, Inr nextPage)]"]
    1 2 3 4 5 6 7 8 9
  show ?thesis by (simp add: eggs_def mkExpense_def)
qed

end
